theory Spec2Isabelle
  imports
    Complex_Main
    "HOL-Library.Char_ord"
    "HOL-Library.List_Lexorder"
begin

section \<open>Acuity invoice parser: text and cells\<close>

text \<open>
  The two parser modules, \<^verbatim>\<open>acuity_invoice_agent.py\<close> and
  \<^verbatim>\<open>acuity_invoice_parser.py\<close>, are embedded function by function.
  Text is ASCII here: a \<open>string\<close> is a list of characters, \<open>upper\<close> changes the
  letters a to z only and \<open>strip\<close> removes the ASCII characters for which Python's
  \<^verbatim>\<open>str.isspace\<close> holds. Numbers are exact rationals: the rounding of binary64,
  its infinities and its NaN payloads are outside the model.
\<close>

subsection \<open>str.strip and str.upper\<close>

definition is_space :: "char \<Rightarrow> bool" where
  "is_space c = ((of_char c :: nat) \<in> {9, 10, 11, 12, 13, 28, 29, 30, 31, 32})"

definition strip :: "string \<Rightarrow> string" where
  "strip s = rev (dropWhile is_space (rev (dropWhile is_space s)))"

definition upper_char :: "char \<Rightarrow> char" where
  "upper_char c =
     (let n = (of_char c :: nat) in if 97 \<le> n \<and> n \<le> 122 then char_of (n - 32) else c)"

definition upper :: "string \<Rightarrow> string" where
  "upper s = map upper_char s"

subsection \<open>Cells of the data frame\<close>

text \<open>
  A cell as pandas hands it to the parser. The parser looks at a cell only through
  \<^verbatim>\<open>pd.isna\<close>, truth value, \<^verbatim>\<open>str()\<close> and \<^verbatim>\<open>float()\<close>.
  \<open>NaN\<close> stands for every missing marker (None, float nan, NaT). A float carries its
  own \<^verbatim>\<open>repr\<close>, which an exact number cannot compute. \<open>Other\<close> is any further
  object (a timestamp, say), given by its \<^verbatim>\<open>str()\<close>: it is true as a condition and
  \<^verbatim>\<open>float()\<close> raises TypeError on it.
\<close>

datatype cell =
    NaN
  | Text string
  | PyInt int
  | PyFloat rat string
  | Other string

datatype exn = IndexError | ValueError | TypeError | OverflowError

definition isna :: "cell \<Rightarrow> bool" where
  "isna c = (c = NaN)"

fun truthy :: "cell \<Rightarrow> bool" where
  "truthy NaN = False"
| "truthy (Text s) = (s \<noteq> [])"
| "truthy (PyInt n) = (n \<noteq> 0)"
| "truthy (PyFloat r s) = (r \<noteq> 0)"
| "truthy (Other s) = True"

function nat_digits :: "nat \<Rightarrow> string" where
  "nat_digits n =
     (if n < 10 then [char_of (48 + n)]
      else nat_digits (n div 10) @ [char_of (48 + n mod 10)])"
  by pat_completeness auto
termination
  by (relation "measure id") auto

declare nat_digits.simps [simp del]

definition int_str :: "int \<Rightarrow> string" where
  "int_str i = (if i < 0 then CHR ''-'' # nat_digits (nat (- i)) else nat_digits (nat i))"

text \<open>
  \<^verbatim>\<open>str()\<close> of a cell. The source takes it of a missing cell nowhere: a test
  with \<^verbatim>\<open>pd.isna\<close> stands before each.
\<close>

fun py_str :: "cell \<Rightarrow> string" where
  "py_str NaN = ''nan''"
| "py_str (Text s) = s"
| "py_str (PyInt n) = int_str n"
| "py_str (PyFloat r s) = s"
| "py_str (Other s) = s"

subsection \<open>Code tables and their lookups\<close>

definition COUNTRY_CODES :: "(string \<times> string) list" where
  "COUNTRY_CODES =
     [(''MEX'', ''MX''), (''USA'', ''US''), (''CAN'', ''CA''), (''CHN'', ''CN''), (''JPN'', ''JP''),
      (''DEU'', ''DE''), (''GBR'', ''GB''), (''FRA'', ''FR''), (''ITA'', ''IT''), (''ESP'', ''ES''),
      (''BRA'', ''BR''), (''IND'', ''IN''), (''KOR'', ''KR''), (''TWN'', ''TW''), (''THA'', ''TH''),
      (''VNM'', ''VN''), (''MYS'', ''MY''), (''SGP'', ''SG''), (''IDN'', ''ID''), (''PHL'', ''PH'')]"

definition UNIT_CODES :: "(string \<times> string) list" where
  "UNIT_CODES =
     [(''PZS'', ''PCS''), (''PZA'', ''PCS''), (''KGS'', ''KG''), (''KGM'', ''KG''),
      (''LBS'', ''LB''), (''MTS'', ''M''), (''MTR'', ''M''), (''LTS'', ''L''),
      (''LTR'', ''L''), (''UNI'', ''EA''), (''CAJ'', ''CS''), (''PAR'', ''PR'')]"

text \<open>\<^verbatim>\<open>d.get(k, default)\<close> on a table.\<close>

definition dict_get :: "(string \<times> string) list \<Rightarrow> string \<Rightarrow> string \<Rightarrow> string" where
  "dict_get d k dflt = (case map_of d k of None \<Rightarrow> dflt | Some v \<Rightarrow> v)"

text \<open>
  \<^verbatim>\<open>AcuityInvoiceAgent.convert_country_code\<close>: the code is looked up unless it
  has exactly two characters.
\<close>

definition convert_country_code :: "cell \<Rightarrow> string" where
  "convert_country_code code =
     (if \<not> truthy code \<or> isna code then []
      else let code' = upper (strip (py_str code))
           in if length code' \<noteq> 2 then dict_get COUNTRY_CODES code' code' else code')"

text \<open>The module-level \<^verbatim>\<open>convert_country_code\<close> of the command-line parser.\<close>

definition parser_convert_country_code :: "cell \<Rightarrow> string" where
  "parser_convert_country_code country_code =
     (if \<not> truthy country_code \<or> isna country_code then []
      else let code = upper (strip (py_str country_code))
           in if length code = 2 then code else dict_get COUNTRY_CODES code code)"

definition convert_unit :: "cell \<Rightarrow> string" where
  "convert_unit unit =
     (if \<not> truthy unit \<or> isna unit then []
      else let unit' = upper (strip (py_str unit)) in dict_get UNIT_CODES unit' unit')"

subsection \<open>float() and clean_numeric\<close>

text \<open>
  Python's \<^verbatim>\<open>float()\<close> on text: surrounding white space, a sign, digits in which
  single underscores may separate digits, a point, an exponent. The literals
  \<^verbatim>\<open>inf\<close>, \<^verbatim>\<open>infinity\<close> and \<^verbatim>\<open>nan\<close>, which Python turns into
  non-finite floats, have no value among exact numbers and are not accepted here.
\<close>

definition is_digit :: "char \<Rightarrow> bool" where
  "is_digit c = (48 \<le> (of_char c :: nat) \<and> (of_char c :: nat) \<le> 57)"

fun digitpart :: "string \<Rightarrow> bool" where
  "digitpart [] = False"
| "digitpart [c] = is_digit c"
| "digitpart (c # d # cs) =
     (is_digit c \<and> (if d = CHR ''_'' then digitpart cs else digitpart (d # cs)))"

definition digits_val :: "string \<Rightarrow> nat" where
  "digits_val s = foldl (\<lambda>a c. 10 * a + (of_char c - 48)) 0 (filter is_digit s)"

definition digit_or_underscore :: "char \<Rightarrow> bool" where
  "digit_or_underscore c = (is_digit c \<or> c = CHR ''_'')"

definition unsign :: "string \<Rightarrow> bool \<times> string" where
  "unsign s =
     (case s of
        c # cs \<Rightarrow> if c = CHR ''-'' then (True, cs) else if c = CHR ''+'' then (False, cs)
                  else (False, s)
      | [] \<Rightarrow> (False, s))"

definition exponent :: "string \<Rightarrow> int option" where
  "exponent s =
     (case s of
        [] \<Rightarrow> Some 0
      | c # cs \<Rightarrow>
          if c = CHR ''e'' \<or> c = CHR ''E'' then
            (let (neg, ds) = unsign cs
             in if digitpart ds
                then Some (if neg then - int (digits_val ds) else int (digits_val ds))
                else None)
          else None)"

definition scale10 :: "rat \<Rightarrow> int \<Rightarrow> rat" where
  "scale10 x e = (if 0 \<le> e then x * 10 ^ nat e else x / 10 ^ nat (- e))"

definition float_of_text :: "string \<Rightarrow> rat option" where
  "float_of_text s =
     (let (neg, body) = unsign (strip s);
          ip = takeWhile digit_or_underscore body;
          rest = dropWhile digit_or_underscore body;
          (fp, rest') =
             (case rest of
                c # cs \<Rightarrow>
                  if c = CHR ''.''
                  then (takeWhile digit_or_underscore cs, dropWhile digit_or_underscore cs)
                  else ([], rest)
              | [] \<Rightarrow> ([], rest))
      in if (ip = [] \<or> digitpart ip) \<and> (fp = [] \<or> digitpart fp) \<and> (ip \<noteq> [] \<or> fp \<noteq> [])
         then (case exponent rest' of
                 None \<Rightarrow> None
               | Some e \<Rightarrow>
                   (let k = length (filter is_digit fp);
                        m = of_nat (digits_val ip) + of_nat (digits_val fp) / 10 ^ k
                    in Some (scale10 (if neg then - m else m) e)))
         else None)"

text \<open>
  \<^verbatim>\<open>float(value)\<close> on a cell. An int whose nearest binary64 would be
  \<open>2 ^ 1024\<close> or beyond raises OverflowError; \<^verbatim>\<open>float(None)\<close> raises TypeError.
\<close>

fun py_float :: "cell \<Rightarrow> exn + rat" where
  "py_float NaN = Inl TypeError"
| "py_float (Text s) = (case float_of_text s of None \<Rightarrow> Inl ValueError | Some v \<Rightarrow> Inr v)"
| "py_float (PyInt n) =
     (if 2 ^ 1024 - 2 ^ 970 \<le> \<bar>n\<bar> then Inl OverflowError else Inr (of_int n))"
| "py_float (PyFloat r s) = Inr r"
| "py_float (Other s) = Inl TypeError"

text \<open>
  \<^verbatim>\<open>AcuityInvoiceAgent.clean_numeric\<close>: \<open>Inl\<close> is an exception that leaves the
  function, \<open>Inr None\<close> is the returned None.
\<close>

definition clean_numeric :: "cell \<Rightarrow> exn + rat option" where
  "clean_numeric v =
     (if isna v then Inr None
      else (case py_float v of
              Inr x \<Rightarrow> Inr (Some x)
            | Inl ValueError \<Rightarrow> Inr None
            | Inl TypeError \<Rightarrow> Inr None
            | Inl e \<Rightarrow> Inl e))"

text \<open>The module-level \<^verbatim>\<open>clean_value\<close> of the command-line parser, the same code.\<close>

definition clean_value :: "cell \<Rightarrow> exn + rat option" where
  "clean_value v =
     (if isna v then Inr None
      else (case py_float v of
              Inr x \<Rightarrow> Inr (Some x)
            | Inl ValueError \<Rightarrow> Inr None
            | Inl TypeError \<Rightarrow> Inr None
            | Inl e \<Rightarrow> Inl e))"

section \<open>Line items\<close>

text \<open>
  The keys that the items of both modules share; the field \<open>val\<close> is the key
  \<^verbatim>\<open>'value'\<close>. An agent item adds \<^verbatim>\<open>line_number\<close>, an item of the command-line
  parser adds five text columns. \<open>None\<close> in a numeric field is None or NaN.
\<close>

record item_fields =
  sku :: string
  description :: string
  hts :: string
  country_of_origin :: string
  quantity :: "rat option"
  qty_unit :: string
  net_weight :: "rat option"
  gross_weight :: "rat option"
  unit_price :: "rat option"
  val :: "rat option"

record line_item = item_fields +
  line_number :: nat

record invoice_item = item_fields +
  no_of_package :: string
  package_type :: string
  container_number :: string
  po_number :: string
  po_reference :: string

subsection \<open>Validation\<close>

definition validate_item :: "line_item \<Rightarrow> string list" where
  "validate_item item =
     (if sku item = [] then [''Missing SKU''] else []) @
     (if hts item = [] then [''Missing HTS code''] else []) @
     (if country_of_origin item = [] then [''Missing country of origin''] else []) @
     (case quantity item of
        None \<Rightarrow> [''Missing quantity'']
      | Some q \<Rightarrow> if q \<le> 0 then [''Invalid quantity (must be > 0)''] else []) @
     (case val item of
        None \<Rightarrow> [''Missing value'']
      | Some v \<Rightarrow> if v < 0 then [''Invalid value (must be >= 0)''] else [])"

subsection \<open>Aggregation by SKU\<close>

text \<open>
  \<^verbatim>\<open>df.groupby('sku', as_index=False)\<close>: pandas sorts the group keys
  (\<^verbatim>\<open>sort=True\<close> is the default), and every group keeps its rows in the order of
  the frame. A group is its key, its first row and its further rows. pandas drops the
  rows whose key is missing; the key here is a text, as both loops write
  \<^verbatim>\<open>str(sku).strip()\<close> and nothing else.
\<close>

definition groupby :: "('a \<Rightarrow> string) \<Rightarrow> 'a list \<Rightarrow> (string \<times> 'a \<times> 'a list) list" where
  "groupby key df =
     List.map_filter
       (\<lambda>k. case filter (\<lambda>r. key r = k) df of [] \<Rightarrow> None | r # rs \<Rightarrow> Some (k, r, rs))
       (sort (remdups (map key df)))"

text \<open>The aggregation \<^verbatim>\<open>'sum'\<close>: missing entries are skipped, an empty sum is 0.\<close>

definition col_sum :: "('a \<Rightarrow> rat option) \<Rightarrow> 'a list \<Rightarrow> rat" where
  "col_sum f g = sum_list (map (\<lambda>r. case f r of None \<Rightarrow> 0 | Some v \<Rightarrow> v) g)"

text \<open>
  One row of \<^verbatim>\<open>.agg(agg_dict)\<close>: the four sums and the first row's texts. The
  columns that \<^verbatim>\<open>agg_dict\<close> does not name, \<^verbatim>\<open>unit_price\<close> and
  \<^verbatim>\<open>line_number\<close>, are not in the aggregated frame; \<open>unit_price = None\<close> is the NaN
  that the masked assignment leaves in the rows it does not write, and \<open>m\<close> holds the
  further columns.
\<close>

definition agg_row ::
  "string \<Rightarrow> 'a item_fields_scheme \<Rightarrow> 'a item_fields_scheme list \<Rightarrow> 'b \<Rightarrow> 'b item_fields_scheme"
where
  "agg_row k r rs m =
     \<lparr>sku = k,
      description = description r,
      hts = hts r,
      country_of_origin = country_of_origin r,
      quantity = Some (col_sum quantity (r # rs)),
      qty_unit = qty_unit r,
      net_weight = Some (col_sum net_weight (r # rs)),
      gross_weight = Some (col_sum gross_weight (r # rs)),
      unit_price = None,
      val = Some (col_sum val (r # rs)),
      \<dots> = m\<rparr>"

text \<open>
  \<^verbatim>\<open>mask = aggregated['quantity'] > 0\<close> and the assignment of
  \<^verbatim>\<open>value / quantity\<close> to \<^verbatim>\<open>unit_price\<close> in the rows of the mask.
\<close>

definition recalc_unit_price :: "'a item_fields_scheme \<Rightarrow> 'a item_fields_scheme" where
  "recalc_unit_price a =
     (case (quantity a, val a) of
        (Some q, Some v) \<Rightarrow> if 0 < q then a\<lparr>unit_price := Some (v / q)\<rparr> else a
      | _ \<Rightarrow> a)"

definition set_line_number :: "nat \<Rightarrow> item_fields \<Rightarrow> line_item" where
  "set_line_number n a =
     \<lparr>sku = sku a, description = description a, hts = hts a,
      country_of_origin = country_of_origin a, quantity = quantity a, qty_unit = qty_unit a,
      net_weight = net_weight a, gross_weight = gross_weight a, unit_price = unit_price a,
      val = val a, line_number = n\<rparr>"

text \<open>\<^verbatim>\<open>AcuityInvoiceAgent.aggregate_by_sku\<close>.\<close>

definition aggregate_by_sku :: "line_item list \<Rightarrow> line_item list" where
  "aggregate_by_sku line_items =
     (if line_items = [] then []
      else let aggregated = map (\<lambda>(k, r, rs). agg_row k r rs ()) (groupby sku line_items);
               aggregated' = map recalc_unit_price aggregated
           in map (\<lambda>(n, a). set_line_number n a)
                (zip [1 ..< Suc (length aggregated')] aggregated'))"

text \<open>
  The module-level \<^verbatim>\<open>aggregate_by_sku\<close> of the command-line parser: the five
  further text columns are first-wins too, and no line number is written.
\<close>

definition parser_aggregate_by_sku :: "invoice_item list \<Rightarrow> invoice_item list" where
  "parser_aggregate_by_sku line_items =
     (if line_items = [] then []
      else let aggregated =
                 map (\<lambda>(k, r, rs). agg_row k r rs (item_fields.more r)) (groupby sku line_items)
           in map recalc_unit_price aggregated)"

subsection \<open>Summary\<close>

text \<open>
  \<^verbatim>\<open>round(x, 2)\<close> on exact numbers: the nearest multiple of one hundredth, a tie
  going to the even one.
\<close>

definition round_half_even :: "rat \<Rightarrow> int" where
  "round_half_even x =
     (let f = \<lfloor>x\<rfloor>; d = x - of_int f
      in if d < 1 / 2 then f else if 1 / 2 < d then f + 1 else if even f then f else f + 1)"

definition round2 :: "rat \<Rightarrow> rat" where
  "round2 x = of_int (round_half_even (x * 100)) / 100"

text \<open>
  \<^verbatim>\<open>AcuityInvoiceAgent._generate_summary\<close>: the returned dict, as the list of its
  keys and values in the order of the source. For no items the source returns the empty
  dict.
\<close>

definition generate_summary :: "line_item list \<Rightarrow> (string \<times> rat) list" where
  "generate_summary items =
     (if items = [] then []
      else let total_qty = col_sum quantity items;
               total_value = col_sum val items;
               total_weight = col_sum net_weight items;
               unique_skus = length (remdups (map sku items));
               unique_hts = length (remdups (map hts (filter (\<lambda>i. hts i \<noteq> []) items)));
               unique_origins =
                 length (remdups (map country_of_origin
                                    (filter (\<lambda>i. country_of_origin i \<noteq> []) items)))
           in [(''total_items'', of_nat (length items)),
               (''total_quantity'', round2 total_qty),
               (''total_value'', round2 total_value),
               (''total_weight_kg'', round2 total_weight),
               (''unique_skus'', of_nat unique_skus),
               (''unique_hts_codes'', of_nat unique_hts),
               (''unique_origins'', of_nat unique_origins)])"

section \<open>The row loop\<close>

subsection \<open>Positional access\<close>

datatype column =
    Sku | Description | Hts | Country_of_origin | Quantity
  | Net_weight | Gross_weight | Unit_price | Value | Qty_unit

fun COLUMN_MAP :: "column \<Rightarrow> nat" where
  "COLUMN_MAP Sku = 19"
| "COLUMN_MAP Description = 23"
| "COLUMN_MAP Hts = 42"
| "COLUMN_MAP Country_of_origin = 38"
| "COLUMN_MAP Quantity = 20"
| "COLUMN_MAP Net_weight = 33"
| "COLUMN_MAP Gross_weight = 34"
| "COLUMN_MAP Unit_price = 25"
| "COLUMN_MAP Value = 28"
| "COLUMN_MAP Qty_unit = 21"

text \<open>\<^verbatim>\<open>row.iloc[i]\<close> for \<open>i \<ge> 0\<close>: IndexError beyond the end of the row.\<close>

definition iloc :: "cell list \<Rightarrow> nat \<Rightarrow> exn + cell" where
  "iloc row i = (if i < length row then Inr (row ! i) else Inl IndexError)"

text \<open>Sequencing of steps that may raise: the first exception ends the sequence.\<close>

fun bindE :: "exn + 'a \<Rightarrow> ('a \<Rightarrow> exn + 'b) \<Rightarrow> exn + 'b" where
  "bindE (Inl e) f = Inl e"
| "bindE (Inr x) f = f x"

text \<open>\<^verbatim>\<open>str(c).strip() if not pd.isna(c) else ''\<close>.\<close>

definition text_or_empty :: "cell \<Rightarrow> string" where
  "text_or_empty c = (if \<not> isna c then strip (py_str c) else [])"

subsection \<open>The agent: parse_file\<close>

record config =
  validate :: bool
  max_items :: "int option"

text \<open>
  An entry of the list \<^verbatim>\<open>errors\<close>: the validation messages of a kept item, or
  the exception that made the loop give a row up; both carry the line.
\<close>

datatype issue =
    is_item_errors: Item_errors (line: nat) "string list"
  | Parse_error (line: nat) exn

text \<open>
  The dict literal inside the inner \<^verbatim>\<open>try\<close>, its cells read in the order of
  the source.
\<close>

definition build_item :: "nat \<Rightarrow> cell \<Rightarrow> cell list \<Rightarrow> exn + line_item" where
  "build_item idx sku_cell row =
     bindE (iloc row (COLUMN_MAP Description)) (\<lambda>d.
     bindE (iloc row (COLUMN_MAP Hts)) (\<lambda>h.
     bindE (iloc row (COLUMN_MAP Country_of_origin)) (\<lambda>c.
     bindE (bindE (iloc row (COLUMN_MAP Quantity)) clean_numeric) (\<lambda>q.
     bindE (iloc row (COLUMN_MAP Qty_unit)) (\<lambda>u.
     bindE (bindE (iloc row (COLUMN_MAP Net_weight)) clean_numeric) (\<lambda>nw.
     bindE (bindE (iloc row (COLUMN_MAP Gross_weight)) clean_numeric) (\<lambda>gw.
     bindE (bindE (iloc row (COLUMN_MAP Unit_price)) clean_numeric) (\<lambda>up.
     bindE (bindE (iloc row (COLUMN_MAP Value)) clean_numeric) (\<lambda>v.
       Inr \<lparr>sku = strip (py_str sku_cell),
            description = text_or_empty d,
            hts = text_or_empty h,
            country_of_origin = convert_country_code c,
            quantity = q,
            qty_unit = convert_unit u,
            net_weight = nw,
            gross_weight = gw,
            unit_price = up,
            val = v,
            line_number = idx + 1\<rparr>)))))))))"

text \<open>\<^verbatim>\<open>self.max_items and len(line_items) >= self.max_items\<close>.\<close>

definition limit_reached :: "config \<Rightarrow> line_item list \<Rightarrow> bool" where
  "limit_reached cfg line_items =
     (case max_items cfg of
        None \<Rightarrow> False
      | Some n \<Rightarrow> n \<noteq> 0 \<and> n \<le> int (length line_items))"

text \<open>
  One pass through the body of the loop after the limit check, on the lists
  \<^verbatim>\<open>line_items\<close> and \<^verbatim>\<open>errors\<close>. \<open>Inl\<close> is an exception outside the
  inner \<^verbatim>\<open>try\<close>, which ends the whole parse.
\<close>

definition process_row ::
  "config \<Rightarrow> nat \<Rightarrow> cell list \<Rightarrow> line_item list \<times> issue list
     \<Rightarrow> exn + line_item list \<times> issue list"
where
  "process_row cfg idx row st =
     (case iloc row (COLUMN_MAP Sku) of
        Inl e \<Rightarrow> Inl e
      | Inr sku_cell \<Rightarrow>
          if isna sku_cell \<or> strip (py_str sku_cell) = [] then Inr st
          else (case build_item idx sku_cell row of
                  Inl e \<Rightarrow> Inr (fst st, snd st @ [Parse_error (idx + 1) e])
                | Inr item \<Rightarrow>
                    Inr (fst st @ [item],
                         snd st @
                           (if validate cfg \<and> validate_item item \<noteq> []
                            then [Item_errors (idx + 1) (validate_item item)] else []))))"

fun scan_rows ::
  "config \<Rightarrow> nat \<Rightarrow> cell list list \<Rightarrow> line_item list \<times> issue list
     \<Rightarrow> exn + line_item list \<times> issue list"
where
  "scan_rows cfg idx [] st = Inr st"
| "scan_rows cfg idx (row # rows) st =
     (if limit_reached cfg (fst st) then Inr st
      else (case process_row cfg idx row st of
              Inl e \<Rightarrow> Inl e
            | Inr st' \<Rightarrow> scan_rows cfg (idx + 1) rows st'))"

text \<open>
  \<^verbatim>\<open>AcuityInvoiceAgent.parse_file\<close> from the data frame on: reading the file,
  the metadata and the time stamp are left out.
\<close>

datatype parse_result =
    Failure exn
  | Success (items: "line_item list") (summary: "(string \<times> rat) list")
      (errors: "issue list") (aggregated: bool)

definition parse_file :: "config \<Rightarrow> cell list list \<Rightarrow> bool \<Rightarrow> parse_result" where
  "parse_file cfg df aggregate =
     (case scan_rows cfg 0 df ([], []) of
        Inl e \<Rightarrow> Failure e
      | Inr (line_items, errs) \<Rightarrow>
          let line_items' = (if aggregate then aggregate_by_sku line_items else line_items)
          in Success line_items' (generate_summary line_items') errs aggregate)"


subsection \<open>The command-line parser: parse_acuity_invoice\<close>




section \<open>Claims restated for comparison\<close>

text \<open>
  The order in which the elements of a list appear for the first time, as the
  specification words the order of the groups.
\<close>

fun first_appearance :: "'a list \<Rightarrow> 'a list" where
  "first_appearance [] = []"
| "first_appearance (x # xs) = x # filter (\<lambda>y. y \<noteq> x) (first_appearance xs)"

text \<open>A row whose SKU cell is there and is missing or blank after trimming.\<close>

definition sku_blank :: "cell list \<Rightarrow> bool" where
  "sku_blank row =
     (case iloc row (COLUMN_MAP Sku) of
        Inl e \<Rightarrow> False
      | Inr c \<Rightarrow> isna c \<or> strip (py_str c) = [])"

text \<open>The item that the row at position \<open>idx\<close> gives, if it gives one.\<close>

definition row_item :: "nat \<Rightarrow> cell list \<Rightarrow> line_item option" where
  "row_item idx row =
     (case iloc row (COLUMN_MAP Sku) of
        Inl e \<Rightarrow> None
      | Inr c \<Rightarrow>
          if isna c \<or> strip (py_str c) = [] then None
          else (case build_item idx c row of Inl e \<Rightarrow> None | Inr item \<Rightarrow> Some item))"

fun extracted :: "nat \<Rightarrow> cell list list \<Rightarrow> line_item list" where
  "extracted idx [] = []"
| "extracted idx (row # rows) =
     (case row_item idx row of
        None \<Rightarrow> extracted (idx + 1) rows
      | Some item \<Rightarrow> item # extracted (idx + 1) rows)"

text \<open>What one pass of the loop adds to the list of items and to the list of errors.\<close>

definition new_items :: "nat \<Rightarrow> cell list \<Rightarrow> line_item list" where
  "new_items idx row = (case row_item idx row of None \<Rightarrow> [] | Some it \<Rightarrow> [it])"

definition new_issues :: "config \<Rightarrow> nat \<Rightarrow> cell list \<Rightarrow> issue list" where
  "new_issues cfg idx row =
     (case iloc row (COLUMN_MAP Sku) of
        Inl e \<Rightarrow> []
      | Inr c \<Rightarrow>
          if isna c \<or> strip (py_str c) = [] then []
          else (case build_item idx c row of
                  Inl e \<Rightarrow> [Parse_error (idx + 1) e]
                | Inr item \<Rightarrow>
                    if validate cfg \<and> validate_item item \<noteq> []
                    then [Item_errors (idx + 1) (validate_item item)] else []))"

text \<open>
  What the two aggregations share: the rows of the aggregated frame after the unit
  price has been written, \<open>M\<close> giving the further columns from a group's first row.
\<close>

definition agg_frame ::
  "('a item_fields_scheme \<Rightarrow> 'b) \<Rightarrow> 'a item_fields_scheme list \<Rightarrow> 'b item_fields_scheme list"
where
  "agg_frame M df =
     map recalc_unit_price (map (\<lambda>(k, r, rs). agg_row k r rs (M r)) (groupby sku df))"

section \<open>Example inputs\<close>

definition example_item ::
  "nat \<Rightarrow> string \<Rightarrow> rat option \<Rightarrow> rat option \<Rightarrow> rat option \<Rightarrow> line_item"
where
  "example_item n k q u v =
     \<lparr>sku = k, description = ''Lamp'', hts = ''9405.11'', country_of_origin = ''MX'',
      quantity = q, qty_unit = ''PCS'', net_weight = Some 2, gross_weight = None,
      unit_price = u, val = v, line_number = n\<rparr>"

definition example_invoice_item ::
  "string \<Rightarrow> rat option \<Rightarrow> rat option \<Rightarrow> rat option \<Rightarrow> invoice_item"
where
  "example_invoice_item k q u v =
     \<lparr>sku = k, description = ''Lamp'', hts = ''9405.11'', country_of_origin = ''MX'',
      quantity = q, qty_unit = ''PCS'', net_weight = Some 2, gross_weight = None,
      unit_price = u, val = v, no_of_package = [], package_type = [],
      container_number = [], po_number = [], po_reference = []\<rparr>"

text \<open>
  Three rows: part B once, with quantity 0 and unit price 5, then part A twice, with
  quantities 10 and 5 and values 100 and 40.
\<close>

definition example_items :: "line_item list" where
  "example_items =
     [example_item 1 ''B'' (Some 0) (Some 5) (Some 0),
      example_item 2 ''A'' (Some 10) (Some 10) (Some 100),
      example_item 3 ''A'' (Some 5) (Some 8) (Some 40)]"

definition example_invoice_items :: "invoice_item list" where
  "example_invoice_items =
     [example_invoice_item ''B'' (Some 0) (Some 5) (Some 0),
      example_invoice_item ''A'' (Some 10) (Some 10) (Some 100),
      example_invoice_item ''A'' (Some 5) (Some 8) (Some 40)]"

text \<open>
  A row of 43 cells with the given SKU, quantity and value cells, origin MEX, unit PZS,
  and the other cells empty; and a frame of five such rows, the second and the fourth
  without a SKU, the third with a quantity that is no number.
\<close>

definition example_row :: "cell \<Rightarrow> cell \<Rightarrow> cell \<Rightarrow> cell list" where
  "example_row s q v =
     (replicate 43 NaN)
       [19 := s, 20 := q, 21 := Text ''PZS'', 23 := Text ''Lamp'', 28 := v,
        38 := Text ''MEX'', 42 := Text ''9405.11'']"

definition example_df :: "cell list list" where
  "example_df =
     [example_row (Text ''ABC123'') (PyInt 10) (PyInt 100),
      example_row NaN (PyInt 1) (PyInt 1),
      example_row (Text ''X1'') (Text ''N/A'') (PyInt 40),
      example_row (Text ''  '') NaN NaN,
      example_row (Text ''ABC123'') (PyInt 5) (PyInt 40)]"

section \<open>Text normalisation\<close>

lemma of_char_upper_char:
  "(of_char (upper_char c) :: nat) =
     (if 97 \<le> (of_char c :: nat) \<and> (of_char c :: nat) \<le> 122 then of_char c - 32 else of_char c)"
proof -
  have "(of_char c :: nat) < 256" by simp
  then show ?thesis unfolding upper_char_def Let_def by auto
qed

lemma is_space_upper_char: "is_space (upper_char c) = is_space c"
  unfolding is_space_def of_char_upper_char by auto

lemma dropWhile_space_upper: "dropWhile is_space (upper s) = upper (dropWhile is_space s)"
  unfolding upper_def by (induction s) (auto simp: is_space_upper_char)

lemma strip_upper: "strip (upper s) = upper (strip s)"
  unfolding strip_def
  by (metis dropWhile_space_upper upper_def rev_map)

lemma upper_char_idem: "upper_char (upper_char c) = upper_char c"
proof -
  have "(of_char (upper_char (upper_char c)) :: nat) = of_char (upper_char c)"
    unfolding of_char_upper_char by auto
  then show ?thesis by (simp only: of_char_eq_iff)
qed

lemma upper_idem: "upper (upper s) = upper s"
  unfolding upper_def by (simp add: upper_char_idem)

lemma dropWhile_snoc_stop: "\<not> P a \<Longrightarrow> dropWhile P (xs @ [a]) = dropWhile P xs @ [a]"
  by (induction xs) auto

lemma dropWhile_rev_dropWhile:
  "dropWhile P (rev (dropWhile P (rev (dropWhile P s)))) = rev (dropWhile P (rev (dropWhile P s)))"
proof (cases "dropWhile P s")
  case Nil
  show ?thesis unfolding Nil by simp
next
  case (Cons a t)
  then have na: "\<not> P a" by (metis hd_dropWhile list.sel(1) list.distinct(1))
  show ?thesis unfolding Cons using na by (simp add: dropWhile_snoc_stop)
qed

lemma strip_idem: "strip (strip s) = strip s"
  unfolding strip_def by (simp add: dropWhile_rev_dropWhile)

lemma norm_idem: "upper (strip (upper (strip s))) = upper (strip s)"
  by (simp add: strip_upper strip_idem upper_idem)

lemma table_values_fixed:
  "\<forall>(k, v) \<in> set COUNTRY_CODES. length v = 2 \<and> upper (strip v) = v"
  by code_simp

lemma country_fixpoint:
  assumes "r = [] \<or> (upper (strip r) = r \<and> (length r = 2 \<or> map_of COUNTRY_CODES r = None))"
  shows "convert_country_code (Text r) = r"
  using assms unfolding convert_country_code_def isna_def dict_get_def Let_def
  by auto

lemma country_result_shape:
  "convert_country_code c = [] \<or>
     (upper (strip (convert_country_code c)) = convert_country_code c \<and>
      (length (convert_country_code c) = 2 \<or> map_of COUNTRY_CODES (convert_country_code c) = None))"
proof (cases "\<not> truthy c \<or> isna c")
  case True
  then show ?thesis unfolding convert_country_code_def by simp
next
  case False
  define code where "code = upper (strip (py_str c))"
  have n: "upper (strip code) = code" unfolding code_def by (rule norm_idem)
  show ?thesis
  proof (cases "length code = 2")
    case True
    with False n show ?thesis unfolding convert_country_code_def code_def Let_def by simp
  next
    case len: False
    show ?thesis
    proof (cases "map_of COUNTRY_CODES code")
      case None
      with False len n show ?thesis
        unfolding convert_country_code_def code_def Let_def dict_get_def by simp
    next
      case (Some v)
      then have "(code, v) \<in> set COUNTRY_CODES" by (rule map_of_SomeD)
      with table_values_fixed have "length v = 2 \<and> upper (strip v) = v" by blast
      with False len Some show ?thesis
        unfolding convert_country_code_def code_def Let_def dict_get_def by simp
    qed
  qed
qed

lemma parser_convert_country_code_eq: "parser_convert_country_code c = convert_country_code c"
  unfolding parser_convert_country_code_def convert_country_code_def Let_def by simp

text \<open>
  Claim C7. Converting a country code twice gives what converting it once gives, in the
  agent and in the command-line parser, for every cell: a result of two characters comes
  back as it is, a result that the table does not know comes back as it is, and the
  values of the table have two characters.
\<close>

theorem convert_country_code_idempotent:
  "convert_country_code (Text (convert_country_code c)) = convert_country_code c
   \<and> parser_convert_country_code (Text (parser_convert_country_code c))
       = parser_convert_country_code c"
  unfolding parser_convert_country_code_eq
  using country_fixpoint [OF country_result_shape [of c]] by simp

text \<open>The theorem at a padded lower-case code and at a code the table does not know.\<close>

theorem convert_country_code_idempotent_witness:
  "convert_country_code (Text '' mex '') = ''MX''
   \<and> convert_country_code (Text (convert_country_code (Text '' mex ''))) = ''MX''
   \<and> parser_convert_country_code (Text (parser_convert_country_code (Text ''xyz''))) = ''XYZ''"
proof -
  have a: "convert_country_code (Text '' mex '') = ''MX''" by code_simp
  have b: "parser_convert_country_code (Text ''xyz'') = ''XYZ''" by code_simp
  from convert_country_code_idempotent [of "Text '' mex ''"] a
  have "convert_country_code (Text (convert_country_code (Text '' mex ''))) = ''MX''" by simp
  moreover from convert_country_code_idempotent [of "Text ''xyz''"] b
  have "parser_convert_country_code (Text (parser_convert_country_code (Text ''xyz''))) = ''XYZ''"
    by simp
  ultimately show ?thesis using a by simp
qed

section \<open>Aggregation\<close>

lemma filter_key_nonempty:
  "k \<in> set (map key df) \<Longrightarrow> filter (\<lambda>r. key r = k) df \<noteq> []"
  by (auto simp: filter_empty_conv)

lemma groupby_conv:
  "groupby key df =
     map (\<lambda>k. (k, hd (filter (\<lambda>r. key r = k) df), tl (filter (\<lambda>r. key r = k) df)))
       (sort (remdups (map key df)))"
proof -
  let ?f = "\<lambda>k. case filter (\<lambda>r. key r = k) df of [] \<Rightarrow> None | r # rs \<Rightarrow> Some (k, r, rs)"
  let ?ks = "sort (remdups (map key df))"
  have some: "?f k = Some (k, hd (filter (\<lambda>r. key r = k) df), tl (filter (\<lambda>r. key r = k) df))"
    if "k \<in> set ?ks" for k
  proof -
    from that have "filter (\<lambda>r. key r = k) df \<noteq> []"
      using filter_key_nonempty [of k key df] by simp
    then show ?thesis by (cases "filter (\<lambda>r. key r = k) df") auto
  qed
  have "filter (\<lambda>k. ?f k \<noteq> None) ?ks = ?ks"
    using some by (intro filter_True) auto
  then show ?thesis
    unfolding groupby_def map_filter_def using some by (auto intro!: map_cong)
qed

lemma groupby_keys: "map fst (groupby key df) = sort (remdups (map key df))"
  unfolding groupby_conv by (simp add: comp_def)

lemma groupby_members:
  assumes "(k, r, rs) \<in> set (groupby key df)"
  shows "r # rs = filter (\<lambda>x. key x = k) df" and "k \<in> set (map key df)"
proof -
  from assms have k: "k \<in> set (sort (remdups (map key df)))"
    and r: "r = hd (filter (\<lambda>r. key r = k) df)" and rs: "rs = tl (filter (\<lambda>r. key r = k) df)"
    unfolding groupby_conv by auto
  from k show "k \<in> set (map key df)" by simp
  then have "filter (\<lambda>r. key r = k) df \<noteq> []" by (rule filter_key_nonempty)
  with r rs show "r # rs = filter (\<lambda>x. key x = k) df" by simp
qed

lemma sum_over_keys:
  fixes w :: "'a \<Rightarrow> rat"
  assumes "finite K" and "key ` set df \<subseteq> K"
  shows "(\<Sum>k\<in>K. sum_list (map w (filter (\<lambda>r. key r = k) df))) = sum_list (map w df)"
  using assms(2)
proof (induction df)
  case Nil
  then show ?case by simp
next
  case (Cons x xs)
  then have kx: "key x \<in> K" and sub: "key ` set xs \<subseteq> K" by auto
  have "(\<Sum>k\<in>K. sum_list (map w (filter (\<lambda>r. key r = k) (x # xs))))
      = (\<Sum>k\<in>K. (if k = key x then w x else 0) + sum_list (map w (filter (\<lambda>r. key r = k) xs)))"
    by (intro sum.cong) auto
  also have "\<dots> = (\<Sum>k\<in>K. if k = key x then w x else 0)
      + (\<Sum>k\<in>K. sum_list (map w (filter (\<lambda>r. key r = k) xs)))"
    by (rule sum.distrib)
  also have "(\<Sum>k\<in>K. if k = key x then w x else 0) = w x"
    using assms(1) kx by simp
  finally show ?case using Cons.IH [OF sub] by simp
qed

lemma groupby_sum:
  "(\<Sum>(k, r, rs)\<leftarrow>groupby key df. col_sum f (r # rs)) = col_sum f df"
proof -
  let ?ks = "sort (remdups (map key df))"
  let ?w = "\<lambda>r. case f r of None \<Rightarrow> 0 | Some v \<Rightarrow> v"
  have "(\<Sum>(k, r, rs)\<leftarrow>groupby key df. col_sum f (r # rs))
      = (\<Sum>k\<leftarrow>?ks. col_sum f (filter (\<lambda>r. key r = k) df))"
  proof -
    have "hd (filter (\<lambda>r. key r = k) df) # tl (filter (\<lambda>r. key r = k) df)
        = filter (\<lambda>r. key r = k) df" if "k \<in> set ?ks" for k
      using that filter_key_nonempty [of k key df] by simp
    then show ?thesis
      unfolding groupby_conv by (auto simp: comp_def intro!: arg_cong [where f = sum_list])
  qed
  also have "\<dots> = (\<Sum>k\<in>set ?ks. col_sum f (filter (\<lambda>r. key r = k) df))"
    by (intro sum_list_distinct_conv_sum_set) simp
  also have "\<dots> = col_sum f df"
    unfolding col_sum_def by (intro sum_over_keys) auto
  finally show ?thesis .
qed


lemma recalc_fields [simp]:
  "sku (recalc_unit_price a) = sku a"
  "quantity (recalc_unit_price a) = quantity a"
  "val (recalc_unit_price a) = val a"
  "net_weight (recalc_unit_price a) = net_weight a"
  "gross_weight (recalc_unit_price a) = gross_weight a"
  unfolding recalc_unit_price_def by (auto split: option.splits)

lemma recalc_agg_unit_price:
  "unit_price (recalc_unit_price (agg_row k r rs m)) =
     (if 0 < col_sum quantity (r # rs)
      then Some (col_sum val (r # rs) / col_sum quantity (r # rs)) else None)"
  unfolding recalc_unit_price_def agg_row_def by simp

lemma agg_row_fields [simp]:
  "sku (agg_row k r rs m) = k"
  "quantity (agg_row k r rs m) = Some (col_sum quantity (r # rs))"
  "val (agg_row k r rs m) = Some (col_sum val (r # rs))"
  "net_weight (agg_row k r rs m) = Some (col_sum net_weight (r # rs))"
  "gross_weight (agg_row k r rs m) = Some (col_sum gross_weight (r # rs))"
  unfolding agg_row_def by simp_all

lemma set_line_number_fields [simp]:
  "sku (set_line_number n a) = sku a"
  "quantity (set_line_number n a) = quantity a"
  "val (set_line_number n a) = val a"
  "net_weight (set_line_number n a) = net_weight a"
  "gross_weight (set_line_number n a) = gross_weight a"
  "unit_price (set_line_number n a) = unit_price a"
  "line_number (set_line_number n a) = n"
  unfolding set_line_number_def by simp_all

lemma agg_frame_sku: "map sku (agg_frame M df) = sort (remdups (map sku df))"
proof -
  have "map sku (agg_frame M df) = map fst (groupby sku df)"
    unfolding agg_frame_def by (auto simp: comp_def)
  then show ?thesis by (simp add: groupby_keys)
qed

lemma agg_frame_col_sum:
  assumes "\<And>k r rs m. f (recalc_unit_price (agg_row k r rs m)) = Some (col_sum g (r # rs))"
  shows "col_sum f (agg_frame M df) = col_sum g df"
proof -
  have "col_sum f (agg_frame M df) = (\<Sum>(k, r, rs)\<leftarrow>groupby sku df. col_sum g (r # rs))"
    unfolding agg_frame_def col_sum_def [of f]
    by (auto simp: comp_def assms intro!: arg_cong [where f = sum_list])
  then show ?thesis by (simp add: groupby_sum)
qed

lemma agg_frame_member:
  assumes "a \<in> set (agg_frame M df)"
  shows "quantity a = Some (col_sum quantity (filter (\<lambda>x. sku x = sku a) df))
       \<and> val a = Some (col_sum val (filter (\<lambda>x. sku x = sku a) df))
       \<and> net_weight a = Some (col_sum net_weight (filter (\<lambda>x. sku x = sku a) df))
       \<and> gross_weight a = Some (col_sum gross_weight (filter (\<lambda>x. sku x = sku a) df))
       \<and> unit_price a =
           (if 0 < col_sum quantity (filter (\<lambda>x. sku x = sku a) df)
            then Some (col_sum val (filter (\<lambda>x. sku x = sku a) df)
                       / col_sum quantity (filter (\<lambda>x. sku x = sku a) df))
            else None)"
proof -
  from assms obtain k r rs where g: "(k, r, rs) \<in> set (groupby sku df)"
    and a: "a = recalc_unit_price (agg_row k r rs (M r))"
    unfolding agg_frame_def by auto
  have m: "r # rs = filter (\<lambda>x. sku x = k) df" using g by (rule groupby_members)
  have k: "sku a = k" unfolding a by simp
  show ?thesis unfolding k unfolding a recalc_agg_unit_price by (simp add: m)
qed

lemma aggregate_by_sku_conv:
  "aggregate_by_sku xs =
     map (\<lambda>(n, a). set_line_number n a)
       (zip [1 ..< Suc (length (agg_frame (\<lambda>r. ()) xs))] (agg_frame (\<lambda>r. ()) xs))"
proof (cases "xs = []")
  case True
  then show ?thesis unfolding aggregate_by_sku_def agg_frame_def groupby_def by (simp add: map_filter_simps)
next
  case False
  then show ?thesis unfolding aggregate_by_sku_def agg_frame_def Let_def by simp
qed

lemma parser_aggregate_by_sku_conv:
  "parser_aggregate_by_sku xs = agg_frame item_fields.more xs"
proof (cases "xs = []")
  case True
  then show ?thesis unfolding parser_aggregate_by_sku_def agg_frame_def groupby_def by (simp add: map_filter_simps)
next
  case False
  then show ?thesis unfolding parser_aggregate_by_sku_def agg_frame_def Let_def by simp
qed

lemma map_numbered:
  assumes "\<And>n a. f (set_line_number n a) = f' n a" and "length ns = length as"
  shows "map f (map (\<lambda>(n, a). set_line_number n a) (zip ns as)) = map (\<lambda>(n, a). f' n a) (zip ns as)"
  using assms(2) by (induction ns as rule: list_induct2) (auto simp: assms(1))

lemma aggregate_map_field:
  assumes "\<And>n a. f (set_line_number n a) = f' a"
  shows "map f (aggregate_by_sku xs) = map f' (agg_frame (\<lambda>r. ()) xs)"
proof -
  let ?A = "agg_frame (\<lambda>r. ()) xs"
  let ?ns = "[1 ..< Suc (length ?A)]"
  have len: "length ?ns = length ?A" by (simp del: upt_Suc)
  have "map f (aggregate_by_sku xs) = map (\<lambda>(n, a). f' a) (zip ?ns ?A)"
    unfolding aggregate_by_sku_conv using assms len by (rule map_numbered)
  also have "\<dots> = map f' (map snd (zip ?ns ?A))" by (simp add: case_prod_unfold)
  also have "map snd (zip ?ns ?A) = ?A" using len by (rule map_snd_zip)
  finally show ?thesis .
qed

lemma aggregate_length: "length (aggregate_by_sku xs) = length (agg_frame (\<lambda>r. ()) xs)"
  unfolding aggregate_by_sku_conv by (simp del: upt_Suc)

lemma aggregate_line_numbers:
  "map line_number (aggregate_by_sku xs) = [1 ..< Suc (length (aggregate_by_sku xs))]"
proof -
  let ?A = "agg_frame (\<lambda>r. ()) xs"
  let ?ns = "[1 ..< Suc (length ?A)]"
  have len: "length ?ns = length ?A" by (simp del: upt_Suc)
  have "map line_number (aggregate_by_sku xs) = map (\<lambda>(n, a). n) (zip ?ns ?A)"
    unfolding aggregate_by_sku_conv
    by (rule map_numbered [OF _ len]) simp
  also have "\<dots> = map fst (zip ?ns ?A)" by (simp add: case_prod_unfold)
  also have "\<dots> = ?ns" using len by (rule map_fst_zip)
  finally show ?thesis by (simp only: aggregate_length)
qed

lemma aggregate_sku: "map sku (aggregate_by_sku xs) = sort (remdups (map sku xs))"
  by (simp add: aggregate_map_field [where f' = sku] agg_frame_sku)



lemma aggregate_member:
  assumes "a \<in> set (aggregate_by_sku xs)"
  shows "\<exists>b \<in> set (agg_frame (\<lambda>r. ()) xs). \<exists>n. a = set_line_number n b"
  using assms unfolding aggregate_by_sku_conv by (auto dest: set_zip_rightD)

lemma col_sum_map:
  "col_sum f xs = sum_list (map (\<lambda>v. case v of None \<Rightarrow> 0 | Some x \<Rightarrow> x) (map f xs))"
  unfolding col_sum_def by (simp add: comp_def)

lemma aggregate_col_sum:
  assumes "\<And>n a. f (set_line_number n a) = f' a"
    and "\<And>k r rs m. f' (recalc_unit_price (agg_row k r rs m)) = Some (col_sum g (r # rs))"
  shows "col_sum f (aggregate_by_sku xs) = col_sum g xs"
proof -
  have "col_sum f (aggregate_by_sku xs) = col_sum f' (agg_frame (\<lambda>r. ()) xs)"
    unfolding col_sum_map [of f] col_sum_map [of f']
    by (simp only: aggregate_map_field [where f = f and f' = f', OF assms(1)])
  also have "\<dots> = col_sum g xs" using assms(2) by (rule agg_frame_col_sum)
  finally show ?thesis .
qed

lemma parser_aggregate_col_sum:
  assumes "\<And>k r rs m. f (recalc_unit_price (agg_row k r rs m)) = Some (col_sum g (r # rs))"
  shows "col_sum f (parser_aggregate_by_sku ys) = col_sum g ys"
  unfolding parser_aggregate_by_sku_conv using assms by (rule agg_frame_col_sum)

text \<open>
  Claim C1, as the code has it. In the output of either aggregation, every item carries
  the summed quantity and the summed value of the rows of its SKU; its unit price is the
  summed value divided by the summed quantity where that quantity is strictly positive,
  and is missing (NaN) where it is zero or negative, whatever unit prices the rows had.
\<close>

theorem aggregate_unit_price:
  "(\<forall>a \<in> set (aggregate_by_sku xs).
      quantity a = Some (col_sum quantity (filter (\<lambda>x. sku x = sku a) xs)) \<and>
      val a = Some (col_sum val (filter (\<lambda>x. sku x = sku a) xs)) \<and>
      unit_price a =
        (if 0 < col_sum quantity (filter (\<lambda>x. sku x = sku a) xs)
         then Some (col_sum val (filter (\<lambda>x. sku x = sku a) xs)
                    / col_sum quantity (filter (\<lambda>x. sku x = sku a) xs))
         else None))
   \<and> (\<forall>a \<in> set (parser_aggregate_by_sku ys).
      quantity a = Some (col_sum quantity (filter (\<lambda>x. sku x = sku a) ys)) \<and>
      val a = Some (col_sum val (filter (\<lambda>x. sku x = sku a) ys)) \<and>
      unit_price a =
        (if 0 < col_sum quantity (filter (\<lambda>x. sku x = sku a) ys)
         then Some (col_sum val (filter (\<lambda>x. sku x = sku a) ys)
                    / col_sum quantity (filter (\<lambda>x. sku x = sku a) ys))
         else None))"
proof (intro conjI ballI)
  fix a assume "a \<in> set (aggregate_by_sku xs)"
  then obtain b n where b: "b \<in> set (agg_frame (\<lambda>r. ()) xs)" and a: "a = set_line_number n b"
    using aggregate_member by blast
  from agg_frame_member [OF b] show
    "quantity a = Some (col_sum quantity (filter (\<lambda>x. sku x = sku a) xs))"
    "val a = Some (col_sum val (filter (\<lambda>x. sku x = sku a) xs))"
    "unit_price a =
        (if 0 < col_sum quantity (filter (\<lambda>x. sku x = sku a) xs)
         then Some (col_sum val (filter (\<lambda>x. sku x = sku a) xs)
                    / col_sum quantity (filter (\<lambda>x. sku x = sku a) xs))
         else None)"
    unfolding a by simp_all
next
  fix a assume "a \<in> set (parser_aggregate_by_sku ys)"
  then have b: "a \<in> set (agg_frame item_fields.more ys)"
    by (simp add: parser_aggregate_by_sku_conv)
  from agg_frame_member [OF b] show
    "quantity a = Some (col_sum quantity (filter (\<lambda>x. sku x = sku a) ys))"
    "val a = Some (col_sum val (filter (\<lambda>x. sku x = sku a) ys))"
    "unit_price a =
        (if 0 < col_sum quantity (filter (\<lambda>x. sku x = sku a) ys)
         then Some (col_sum val (filter (\<lambda>x. sku x = sku a) ys)
                    / col_sum quantity (filter (\<lambda>x. sku x = sku a) ys))
         else None)"
    by simp_all
qed

text \<open>The theorem at the three example rows.\<close>

theorem aggregate_unit_price_witness:
  "hd (aggregate_by_sku example_items) \<in> set (aggregate_by_sku example_items)
   \<and> sku (hd (aggregate_by_sku example_items)) = ''A''
   \<and> unit_price (hd (aggregate_by_sku example_items)) = Some (28 / 3)
   \<and> last (aggregate_by_sku example_items) \<in> set (aggregate_by_sku example_items)
   \<and> sku (last (aggregate_by_sku example_items)) = ''B''
   \<and> unit_price (last (aggregate_by_sku example_items)) = None
   \<and> hd (parser_aggregate_by_sku example_invoice_items)
         \<in> set (parser_aggregate_by_sku example_invoice_items)
   \<and> unit_price (hd (parser_aggregate_by_sku example_invoice_items)) = Some (28 / 3)"
proof -
  let ?out = "aggregate_by_sku example_items"
  let ?pout = "parser_aggregate_by_sku example_invoice_items"
  have m1: "hd ?out \<in> set ?out" by code_simp
  have m2: "last ?out \<in> set ?out" by code_simp
  have m3: "hd ?pout \<in> set ?pout" by code_simp
  have k1: "sku (hd ?out) = ''A''" by code_simp
  have k2: "sku (last ?out) = ''B''" by code_simp
  have k3: "sku (hd ?pout) = ''A''" by code_simp
  have q1: "col_sum quantity (filter (\<lambda>x. sku x = ''A'') example_items) = 15" by code_simp
  have v1: "col_sum val (filter (\<lambda>x. sku x = ''A'') example_items) = 140" by code_simp
  have q2: "col_sum quantity (filter (\<lambda>x. sku x = ''B'') example_items) = 0" by code_simp
  have q3: "col_sum quantity (filter (\<lambda>x. sku x = ''A'') example_invoice_items) = 15" by code_simp
  have v3: "col_sum val (filter (\<lambda>x. sku x = ''A'') example_invoice_items) = 140" by code_simp
  note t = aggregate_unit_price [of example_items example_invoice_items]
  from t m1 have "unit_price (hd ?out) = Some (28 / 3)"
    unfolding k1 q1 v1 by (auto simp: k1 q1 v1)
  moreover from t m2 have "unit_price (last ?out) = None"
    by (auto simp: k2 q2)
  moreover from t m3 have "unit_price (hd ?pout) = Some (28 / 3)"
    by (auto simp: k3 q3 v3)
  ultimately show ?thesis using m1 m2 m3 k1 k2 by simp
qed

text \<open>
  Claim C1 as stated fails: a single row of quantity 0 and unit price 5 comes out with no
  unit price, in both modules.
\<close>

theorem aggregate_unit_price_counterexample:
  "col_sum quantity [example_item 1 ''B'' (Some 0) (Some 5) (Some 0)] \<le> 0
   \<and> map unit_price [example_item 1 ''B'' (Some 0) (Some 5) (Some 0)] = [Some 5]
   \<and> map unit_price (aggregate_by_sku [example_item 1 ''B'' (Some 0) (Some 5) (Some 0)])
       = [None]
   \<and> map unit_price
         (parser_aggregate_by_sku [example_invoice_item ''B'' (Some 0) (Some 5) (Some 0)])
       = [None]"
  by code_simp

text \<open>
  Claim C2, as the code has it. The agent's aggregation gives one item for each SKU, in
  ascending order of the SKU text, and numbers the lines 1, 2, 3, ... in that order.
\<close>

theorem aggregate_order:
  "map sku (aggregate_by_sku xs) = sort (remdups (map sku xs))
   \<and> map line_number (aggregate_by_sku xs) = [1 ..< Suc (length (aggregate_by_sku xs))]"
  using aggregate_sku aggregate_line_numbers by blast

text \<open>The theorem at the three example rows.\<close>

theorem aggregate_order_witness:
  "map sku (aggregate_by_sku example_items) = [''A'', ''B'']
   \<and> map line_number (aggregate_by_sku example_items) = [1, 2]"
proof -
  have s: "sort (remdups (map sku example_items)) = [''A'', ''B'']" by code_simp
  note t = aggregate_order [of example_items]
  from t s have k: "map sku (aggregate_by_sku example_items) = [''A'', ''B'']" by simp
  then have "length (map sku (aggregate_by_sku example_items)) = 2" by simp
  then have l: "length (aggregate_by_sku example_items) = 2" by simp
  have "[1 ..< Suc 2] = [1, 2::nat]" by code_simp
  with t l have "map line_number (aggregate_by_sku example_items) = [1, 2]" by simp
  with k show ?thesis by simp
qed

text \<open>
  Claim C2 as stated fails: part B comes first in the input and second in the output.
\<close>

theorem aggregate_order_counterexample:
  "first_appearance (map sku example_items) = [''B'', ''A'']
   \<and> map sku (aggregate_by_sku example_items) = [''A'', ''B'']
   \<and> map sku (aggregate_by_sku example_items) \<noteq> first_appearance (map sku example_items)"
  by code_simp

text \<open>
  Claim C3. Over the output of either aggregation, the sum of the values, missing ones
  counting as 0, is the sum over the input; so it is for quantity, net weight and gross
  weight. The sums are exact.
\<close>

theorem aggregate_preserves_totals:
  "col_sum val (aggregate_by_sku xs) = col_sum val xs
   \<and> col_sum quantity (aggregate_by_sku xs) = col_sum quantity xs
   \<and> col_sum net_weight (aggregate_by_sku xs) = col_sum net_weight xs
   \<and> col_sum gross_weight (aggregate_by_sku xs) = col_sum gross_weight xs
   \<and> col_sum val (parser_aggregate_by_sku ys) = col_sum val ys
   \<and> col_sum quantity (parser_aggregate_by_sku ys) = col_sum quantity ys
   \<and> col_sum net_weight (parser_aggregate_by_sku ys) = col_sum net_weight ys
   \<and> col_sum gross_weight (parser_aggregate_by_sku ys) = col_sum gross_weight ys"
proof (intro conjI)
  show "col_sum val (aggregate_by_sku xs) = col_sum val xs"
    by (rule aggregate_col_sum [where f' = val]) simp_all
  show "col_sum quantity (aggregate_by_sku xs) = col_sum quantity xs"
    by (rule aggregate_col_sum [where f' = quantity]) simp_all
  show "col_sum net_weight (aggregate_by_sku xs) = col_sum net_weight xs"
    by (rule aggregate_col_sum [where f' = net_weight]) simp_all
  show "col_sum gross_weight (aggregate_by_sku xs) = col_sum gross_weight xs"
    by (rule aggregate_col_sum [where f' = gross_weight]) simp_all
  show "col_sum val (parser_aggregate_by_sku ys) = col_sum val ys"
    by (rule parser_aggregate_col_sum) simp
  show "col_sum quantity (parser_aggregate_by_sku ys) = col_sum quantity ys"
    by (rule parser_aggregate_col_sum) simp
  show "col_sum net_weight (parser_aggregate_by_sku ys) = col_sum net_weight ys"
    by (rule parser_aggregate_col_sum) simp
  show "col_sum gross_weight (parser_aggregate_by_sku ys) = col_sum gross_weight ys"
    by (rule parser_aggregate_col_sum) simp
qed

text \<open>The theorem at the three example rows.\<close>

theorem aggregate_preserves_totals_witness:
  "col_sum val example_items = 140
   \<and> col_sum val (aggregate_by_sku example_items) = 140
   \<and> col_sum quantity (aggregate_by_sku example_items) = 15
   \<and> col_sum net_weight (parser_aggregate_by_sku example_invoice_items) = 6"
proof -
  have a: "col_sum val example_items = 140" by code_simp
  have b: "col_sum quantity example_items = 15" by code_simp
  have c: "col_sum net_weight example_invoice_items = 6" by code_simp
  from aggregate_preserves_totals [of example_items example_invoice_items] a b c
  show ?thesis by simp
qed

text \<open>
  Claim C4. The output of the agent's aggregation has no SKU twice, it has the SKUs of
  the input and no others, and so as many distinct SKUs, and as many items, as the input
  has distinct SKUs.
\<close>

theorem aggregate_distinct_skus:
  "distinct (map sku (aggregate_by_sku xs))
   \<and> set (map sku (aggregate_by_sku xs)) = set (map sku xs)
   \<and> card (set (map sku (aggregate_by_sku xs))) = card (set (map sku xs))
   \<and> length (aggregate_by_sku xs) = card (set (map sku xs))"
proof -
  have s: "map sku (aggregate_by_sku xs) = sort (remdups (map sku xs))" by (rule aggregate_sku)
  have d: "distinct (map sku (aggregate_by_sku xs))" unfolding s by simp
  have e: "set (map sku (aggregate_by_sku xs)) = set (map sku xs)" unfolding s by simp
  have "length (map sku (aggregate_by_sku xs)) = card (set (map sku (aggregate_by_sku xs)))"
    using d by (simp only: distinct_card)
  with d e show ?thesis by simp
qed


text \<open>The theorem at the three example rows.\<close>

theorem aggregate_distinct_skus_witness:
  "card (set (map sku example_items)) = 2
   \<and> distinct (map sku (aggregate_by_sku example_items))
   \<and> length (aggregate_by_sku example_items) = 2"
proof -
  have a: "card (set (map sku example_items)) = 2" by code_simp
  from aggregate_distinct_skus [of example_items] a show ?thesis by simp
qed

section \<open>The row loop: validation, skipped rows and the limit\<close>

lemma bindE_Inr: "bindE m f = Inr y \<longleftrightarrow> (\<exists>x. m = Inr x \<and> f x = Inr y)"
  by (cases m) auto

lemma build_item_line_number: "build_item idx c row = Inr it \<Longrightarrow> line_number it = idx + 1"
  unfolding build_item_def by (auto simp: bindE_Inr)


lemma row_item_blank: "sku_blank row \<Longrightarrow> row_item idx row = None"
  unfolding sku_blank_def row_item_def by (auto split: sum.splits)

lemma row_item_line_number: "row_item idx row = Some it \<Longrightarrow> line_number it = idx + 1"
  unfolding row_item_def
  by (auto split: sum.splits if_splits dest: build_item_line_number)

lemma process_row_result:
  assumes "process_row cfg idx row st = Inr st'"
  shows "st' = (fst st @ (case row_item idx row of None \<Rightarrow> [] | Some it \<Rightarrow> [it]),
               snd st @ new_issues cfg idx row)"
  using assms unfolding process_row_def row_item_def new_issues_def
  by (auto split: sum.splits if_splits)

lemma process_row_fails:
  "process_row cfg idx row st = Inl e \<longleftrightarrow> iloc row (COLUMN_MAP Sku) = Inl e"
  unfolding process_row_def by (auto split: sum.splits if_splits)


lemma process_row_eq:
  "process_row cfg idx row st =
     (case iloc row (COLUMN_MAP Sku) of
        Inl e \<Rightarrow> Inl e
      | Inr c \<Rightarrow> Inr (fst st @ new_items idx row, snd st @ new_issues cfg idx row))"
  unfolding process_row_def row_item_def new_issues_def new_items_def
  by (auto split: sum.splits if_splits)

lemma extracted_Cons: "extracted idx (row # rows) = new_items idx row @ extracted (idx + 1) rows"
  unfolding new_items_def by (simp split: option.splits)

lemma new_items_facts:
  "length (new_items idx row) \<le> 1"
  "it \<in> set (new_items idx row) \<Longrightarrow> line_number it = idx + 1 \<and> \<not> sku_blank row"
proof -
  show "length (new_items idx row) \<le> 1"
    unfolding new_items_def by (simp split: option.splits)
  assume "it \<in> set (new_items idx row)"
  then have r: "row_item idx row = Some it"
    unfolding new_items_def by (cases "row_item idx row") auto
  then have "\<not> sku_blank row" using row_item_blank [of row idx] by auto
  with r show "line_number it = idx + 1 \<and> \<not> sku_blank row"
    by (simp add: row_item_line_number)
qed

lemma new_issues_facts:
  assumes "e \<in> set (new_issues cfg idx row)"
  shows "line e = idx + 1 \<and> \<not> sku_blank row"
proof (cases "iloc row (COLUMN_MAP Sku)")
  case (Inl x)
  with assms show ?thesis unfolding new_issues_def by simp
next
  case (Inr c)
  show ?thesis
  proof (cases "isna c \<or> strip (py_str c) = []")
    case True
    with assms Inr show ?thesis unfolding new_issues_def by simp
  next
    case False
    then have nb: "\<not> sku_blank row" unfolding sku_blank_def using Inr by simp
    from assms Inr False have "line e = idx + 1"
      unfolding new_issues_def by (cases "build_item idx c row") (auto split: if_splits)
    with nb show ?thesis by simp
  qed
qed

lemma new_issues_item_errors:
  "filter is_item_errors (new_issues cfg idx row) =
     (if validate cfg
      then map (\<lambda>it. Item_errors (line_number it) (validate_item it))
             (filter (\<lambda>it. validate_item it \<noteq> []) (new_items idx row))
      else [])"
  unfolding new_issues_def new_items_def row_item_def
  by (auto split: sum.splits if_splits dest: build_item_line_number)

lemma scan_rows_invariant:
  assumes "scan_rows cfg idx rows st = Inr st'"
  shows "\<exists>new es. fst st' = fst st @ new \<and> snd st' = snd st @ es
           \<and> length new \<le> length rows
           \<and> filter is_item_errors es =
               (if validate cfg
                then map (\<lambda>it. Item_errors (line_number it) (validate_item it))
                       (filter (\<lambda>it. validate_item it \<noteq> []) new)
                else [])
           \<and> (\<forall>it \<in> set new. \<exists>j < length rows. line_number it = idx + j + 1 \<and> \<not> sku_blank (rows ! j))
           \<and> (\<forall>e \<in> set es. \<exists>j < length rows. line e = idx + j + 1 \<and> \<not> sku_blank (rows ! j))"
  using assms
proof (induction rows arbitrary: idx st)
  case Nil
  then show ?case by simp
next
  case (Cons row rows)
  show ?case
  proof (cases "limit_reached cfg (fst st)")
    case True
    with Cons.prems have "st' = st" by simp
    then show ?thesis by simp
  next
    case False
    with Cons.prems obtain c where c: "iloc row (COLUMN_MAP Sku) = Inr c"
      and rec: "scan_rows cfg (idx + 1) rows
                  (fst st @ new_items idx row, snd st @ new_issues cfg idx row) = Inr st'"
      by (auto simp: process_row_eq split: sum.splits)
    from Cons.IH [OF rec] obtain new es where
      f: "fst st' = (fst st @ new_items idx row) @ new"
      and s: "snd st' = (snd st @ new_issues cfg idx row) @ es"
      and l: "length new \<le> length rows"
      and v: "filter is_item_errors es =
               (if validate cfg
                then map (\<lambda>it. Item_errors (line_number it) (validate_item it))
                       (filter (\<lambda>it. validate_item it \<noteq> []) new)
                else [])"
      and i: "\<forall>it \<in> set new. \<exists>j < length rows. line_number it = idx + 1 + j + 1 \<and> \<not> sku_blank (rows ! j)"
      and e: "\<forall>e \<in> set es. \<exists>j < length rows. line e = idx + 1 + j + 1 \<and> \<not> sku_blank (rows ! j)"
      by auto
    let ?new = "new_items idx row @ new" and ?es = "new_issues cfg idx row @ es"
    have 1: "fst st' = fst st @ ?new" using f by simp
    have 2: "snd st' = snd st @ ?es" using s by simp
    have 3: "length ?new \<le> length (row # rows)"
      using l new_items_facts(1) [of idx row] by simp
    have 4: "filter is_item_errors ?es =
               (if validate cfg
                then map (\<lambda>it. Item_errors (line_number it) (validate_item it))
                       (filter (\<lambda>it. validate_item it \<noteq> []) ?new)
                else [])"
      using v by (simp add: new_issues_item_errors)
    have 5: "\<exists>j < length (row # rows). line_number it = idx + j + 1 \<and> \<not> sku_blank ((row # rows) ! j)"
      if "it \<in> set ?new" for it
    proof (cases "it \<in> set (new_items idx row)")
      case True
      then have "line_number it = idx + 0 + 1 \<and> \<not> sku_blank ((row # rows) ! 0)"
        using new_items_facts(2) by simp
      then show ?thesis by blast
    next
      case False
      with that have "it \<in> set new" by simp
      with i obtain j where "j < length rows" "line_number it = idx + 1 + j + 1" "\<not> sku_blank (rows ! j)"
        by blast
      then have "Suc j < length (row # rows) \<and> line_number it = idx + Suc j + 1
          \<and> \<not> sku_blank ((row # rows) ! Suc j)" by simp
      then show ?thesis by blast
    qed
    have 6: "\<exists>j < length (row # rows). line x = idx + j + 1 \<and> \<not> sku_blank ((row # rows) ! j)"
      if "x \<in> set ?es" for x
    proof (cases "x \<in> set (new_issues cfg idx row)")
      case True
      then have "line x = idx + 0 + 1 \<and> \<not> sku_blank ((row # rows) ! 0)"
        using new_issues_facts by simp
      then show ?thesis by blast
    next
      case False
      with that have "x \<in> set es" by simp
      with e obtain j where "j < length rows" "line x = idx + 1 + j + 1" "\<not> sku_blank (rows ! j)"
        by blast
      then have "Suc j < length (row # rows) \<and> line x = idx + Suc j + 1
          \<and> \<not> sku_blank ((row # rows) ! Suc j)" by simp
      then show ?thesis by blast
    qed
    from 1 2 3 4 5 6 show ?thesis by blast
  qed
qed


lemma scan_rows_unlimited:
  assumes "max_items cfg = None \<or> max_items cfg = Some 0"
    and "scan_rows cfg idx rows st = Inr st'"
  shows "fst st' = fst st @ extracted idx rows"
  using assms(2)
proof (induction rows arbitrary: idx st)
  case Nil
  then show ?case by simp
next
  case (Cons row rows)
  have nl: "\<not> limit_reached cfg (fst st)"
    using assms(1) unfolding limit_reached_def by auto
  with Cons.prems have
    "scan_rows cfg (idx + 1) rows
       (fst st @ new_items idx row, snd st @ new_issues cfg idx row) = Inr st'"
    by (auto simp: process_row_eq split: sum.splits)
  from Cons.IH [OF this] show ?case by (simp add: extracted_Cons del: extracted.simps)
qed

lemma scan_rows_limited:
  assumes "max_items cfg = Some n" and "n \<noteq> 0"
    and "scan_rows cfg idx rows st = Inr st'"
  shows "fst st' =
           (if n \<le> int (length (fst st)) then fst st
            else take (nat n) (fst st @ extracted idx rows))"
  using assms(3)
proof (induction rows arbitrary: idx st)
  case Nil
  then show ?case by auto
next
  case (Cons row rows)
  have lr: "limit_reached cfg its \<longleftrightarrow> n \<le> int (length its)" for its
    using assms(1,2) unfolding limit_reached_def by simp
  show ?case
  proof (cases "n \<le> int (length (fst st))")
    case True
    with Cons.prems lr show ?thesis by simp
  next
    case False
    with Cons.prems lr have rec:
      "scan_rows cfg (idx + 1) rows
         (fst st @ new_items idx row, snd st @ new_issues cfg idx row) = Inr st'"
      by (auto simp: process_row_eq split: sum.splits)
    note ih = Cons.IH [OF rec]
    show ?thesis
    proof (cases "n \<le> int (length (fst st @ new_items idx row))")
      case t: True
      have "length (new_items idx row) \<le> 1" by (rule new_items_facts(1))
      with False t have "nat n = length (fst st @ new_items idx row)" by simp
      then have "take (nat n) (fst st @ extracted idx (row # rows)) = fst st @ new_items idx row"
        by (simp add: extracted_Cons del: extracted.simps)
      with ih t False show ?thesis by (simp del: extracted.simps)
    next
      case f: False
      with ih False show ?thesis by (simp add: extracted_Cons del: extracted.simps)
    qed
  qed
qed

lemma scan_rows_validate_independent:
  assumes "max_items cfg1 = max_items cfg2" and "fst st1 = fst st2"
  shows "map_sum (\<lambda>e. e) fst (scan_rows cfg1 idx rows st1) = map_sum (\<lambda>e. e) fst (scan_rows cfg2 idx rows st2)"
  using assms(2)
proof (induction rows arbitrary: idx st1 st2)
  case Nil
  then show ?case by simp
next
  case (Cons row rows)
  have lr: "limit_reached cfg1 (fst st1) = limit_reached cfg2 (fst st2)"
    using assms(1) Cons.prems unfolding limit_reached_def by (auto split: option.splits)
  show ?case
  proof (cases "limit_reached cfg2 (fst st2)")
    case True
    with lr Cons.prems show ?thesis by simp
  next
    case False
    show ?thesis
    proof (cases "iloc row (COLUMN_MAP Sku)")
      case (Inl e)
      with lr False show ?thesis by (simp add: process_row_eq)
    next
      case (Inr c)
      have "map_sum (\<lambda>e. e) fst (scan_rows cfg1 (idx + 1) rows
               (fst st1 @ new_items idx row, snd st1 @ new_issues cfg1 idx row))
          = map_sum (\<lambda>e. e) fst (scan_rows cfg2 (idx + 1) rows
               (fst st2 @ new_items idx row, snd st2 @ new_issues cfg2 idx row))"
        by (rule Cons.IH) (simp add: Cons.prems)
      with lr False Inr show ?thesis by (simp add: process_row_eq)
    qed
  qed
qed

lemma length_extracted: "length (extracted idx rows) \<le> length rows"
  by (induction rows arbitrary: idx) (auto split: option.splits intro: le_SucI)









text \<open>
  Claim C5. Validation is advisory. Whether the loop fails, and the items it keeps, are
  the same with validation on and off. On a parse that succeeds, the validation entries of
  the error list are, in order, the messages of exactly the kept items that have some,
  each under the line number of its item; and with no limit on the items, the kept items
  are all the items that the rows give.
\<close>

theorem validation_is_advisory:
  "map_sum (\<lambda>e. e) fst (scan_rows (cfg\<lparr>validate := True\<rparr>) idx rows st)
     = map_sum (\<lambda>e. e) fst (scan_rows (cfg\<lparr>validate := False\<rparr>) idx rows st)
   \<and> (scan_rows cfg 0 rows ([], []) = Inr (its, es) \<longrightarrow>
        filter is_item_errors es =
          (if validate cfg
           then map (\<lambda>it. Item_errors (line_number it) (validate_item it))
                  (filter (\<lambda>it. validate_item it \<noteq> []) its)
           else [])
        \<and> (max_items cfg = None \<longrightarrow> its = extracted 0 rows))"
proof (intro conjI impI)
  show "map_sum (\<lambda>e. e) fst (scan_rows (cfg\<lparr>validate := True\<rparr>) idx rows st)
     = map_sum (\<lambda>e. e) fst (scan_rows (cfg\<lparr>validate := False\<rparr>) idx rows st)"
    by (rule scan_rows_validate_independent) simp_all
next
  assume a: "scan_rows cfg 0 rows ([], []) = Inr (its, es)"
  from scan_rows_invariant [OF a]
  show "filter is_item_errors es =
          (if validate cfg
           then map (\<lambda>it. Item_errors (line_number it) (validate_item it))
                  (filter (\<lambda>it. validate_item it \<noteq> []) its)
           else [])"
    by auto
  assume "max_items cfg = None"
  then show "its = extracted 0 rows"
    using scan_rows_unlimited [OF _ a] by simp
qed

text \<open>The theorem at the example frame, whose third row has no quantity.\<close>

theorem validation_is_advisory_witness:
  "scan_rows \<lparr>validate = True, max_items = None\<rparr> 0 example_df ([], [])
     = Inr (extracted 0 example_df, [Item_errors 3 [''Missing quantity'']])
   \<and> map line_number (extracted 0 example_df) = [1, 3, 5]
   \<and> map validate_item (extracted 0 example_df) = [[], [''Missing quantity''], []]
   \<and> filter is_item_errors [Item_errors 3 [''Missing quantity'']]
       = map (\<lambda>it. Item_errors (line_number it) (validate_item it))
           (filter (\<lambda>it. validate_item it \<noteq> []) (extracted 0 example_df))
   \<and> map_sum (\<lambda>e. e) fst (scan_rows \<lparr>validate = False, max_items = None\<rparr> 0 example_df ([], []))
       = Inr (extracted 0 example_df)"
proof -
  let ?cfg = "\<lparr>validate = True, max_items = None\<rparr>"
  have r: "scan_rows ?cfg 0 example_df ([], [])
     = Inr (extracted 0 example_df, [Item_errors 3 [''Missing quantity'']])"
    by code_simp
  have l: "map line_number (extracted 0 example_df) = [1, 3, 5]" by code_simp
  have v: "map validate_item (extracted 0 example_df) = [[], [''Missing quantity''], []]"
    by code_simp
  note t = validation_is_advisory [of ?cfg 0 example_df "([], [])" "extracted 0 example_df"
      "[Item_errors 3 [''Missing quantity'']]"]
  from t r have f: "filter is_item_errors [Item_errors 3 [''Missing quantity'']]
       = map (\<lambda>it. Item_errors (line_number it) (validate_item it))
           (filter (\<lambda>it. validate_item it \<noteq> []) (extracted 0 example_df))"
    by simp
  from t r have "map_sum (\<lambda>e. e) fst (scan_rows \<lparr>validate = False, max_items = None\<rparr> 0 example_df ([], []))
       = Inr (extracted 0 example_df)"
    by simp
  with r l v f show ?thesis by blast
qed



text \<open>
  Claim C10. With \<^verbatim>\<open>max_items = n\<close> and \<open>n > 0\<close>, the loop leaves the rows alone
  once it holds \<open>n\<close> items, so the items before aggregation are the first \<open>n\<close> that the
  rows give, at most \<open>n\<close> of them; with \<^verbatim>\<open>max_items\<close> None or 0 they are all the
  items that the rows give.
\<close>

theorem max_items_limit:
  "(scan_rows cfg 0 rows ([], []) = Inr (its, es) \<longrightarrow>
      (\<forall>n. max_items cfg = Some n \<and> 0 < n \<longrightarrow>
         its = take (nat n) (extracted 0 rows) \<and> int (length its) \<le> n)
      \<and> (max_items cfg = None \<or> max_items cfg = Some 0 \<longrightarrow> its = extracted 0 rows))
   \<and> (\<forall>n. max_items cfg = Some n \<and> 0 < n \<and> n \<le> int (length (fst st)) \<longrightarrow>
         scan_rows cfg idx rows st = Inr st)"
proof (intro conjI impI allI)
  fix n
  assume a: "scan_rows cfg 0 rows ([], []) = Inr (its, es)"
    and n: "max_items cfg = Some n \<and> 0 < n"
  from scan_rows_limited [OF _ _ a, of n] n
  show t: "its = take (nat n) (extracted 0 rows)" by simp
  have "length (take (nat n) (extracted 0 rows)) \<le> nat n" by simp
  with n show "int (length its) \<le> n" unfolding t by linarith
next
  assume a: "scan_rows cfg 0 rows ([], []) = Inr (its, es)"
    and n: "max_items cfg = None \<or> max_items cfg = Some 0"
  from scan_rows_unlimited [OF n a] show "its = extracted 0 rows" by simp
next
  fix n
  assume "max_items cfg = Some n \<and> 0 < n \<and> n \<le> int (length (fst st))"
  then have "limit_reached cfg (fst st)" unfolding limit_reached_def by simp
  then show "scan_rows cfg idx rows st = Inr st" by (cases rows) simp_all
qed


text \<open>The theorem at the example frame, with a limit of 2 and with a limit of 0.\<close>

theorem max_items_limit_witness:
  "scan_rows \<lparr>validate = True, max_items = Some 2\<rparr> 0 example_df ([], [])
     = Inr (take 2 (extracted 0 example_df), [Item_errors 3 [''Missing quantity'']])
   \<and> map line_number (take 2 (extracted 0 example_df)) = [1, 3]
   \<and> int (length (take 2 (extracted 0 example_df))) \<le> 2
   \<and> scan_rows \<lparr>validate = True, max_items = Some 0\<rparr> 0 example_df ([], [])
     = Inr (extracted 0 example_df, [Item_errors 3 [''Missing quantity'']])
   \<and> map line_number (extracted 0 example_df) = [1, 3, 5]"
proof -
  let ?c2 = "\<lparr>validate = True, max_items = Some 2\<rparr>"
  let ?c0 = "\<lparr>validate = True, max_items = Some 0\<rparr>"
  obtain its2 es2 where r2: "scan_rows ?c2 0 example_df ([], []) = Inr (its2, es2)"
    and e2: "es2 = [Item_errors 3 [''Missing quantity'']]"
    and l2: "map line_number its2 = [1, 3]"
  proof
    show "scan_rows ?c2 0 example_df ([], [])
      = Inr (take 2 (extracted 0 example_df), [Item_errors 3 [''Missing quantity'']])"
      by code_simp
    show "[Item_errors 3 [''Missing quantity'']] = [Item_errors 3 [''Missing quantity'']]" by simp
    show "map line_number (take 2 (extracted 0 example_df)) = [1, 3]" by code_simp
  qed
  obtain its0 es0 where r0: "scan_rows ?c0 0 example_df ([], []) = Inr (its0, es0)"
    and e0: "es0 = [Item_errors 3 [''Missing quantity'']]"
    and l0: "map line_number its0 = [1, 3, 5]"
  proof
    show "scan_rows ?c0 0 example_df ([], [])
      = Inr (extracted 0 example_df, [Item_errors 3 [''Missing quantity'']])"
      by code_simp
    show "[Item_errors 3 [''Missing quantity'']] = [Item_errors 3 [''Missing quantity'']]" by simp
    show "map line_number (extracted 0 example_df) = [1, 3, 5]" by code_simp
  qed
  from max_items_limit [of ?c2 example_df its2 es2] r2
  have t2: "its2 = take 2 (extracted 0 example_df) \<and> int (length its2) \<le> 2" by simp
  from max_items_limit [of ?c0 example_df its0 es0] r0
  have t0: "its0 = extracted 0 example_df" by simp
  from r2 e2 l2 t2 r0 e0 l0 t0 show ?thesis by auto
qed

section \<open>Numeric cleaning and the summary\<close>

lemma clean_numeric_missing: "clean_numeric NaN = Inr None"
  by (simp add: clean_numeric_def isna_def)

lemma clean_numeric_text:
  "clean_numeric (Text s) = Inr (float_of_text s)"
  by (simp add: clean_numeric_def isna_def split: option.splits)

lemma clean_numeric_examples:
  "clean_numeric (Text ''N/A'') = Inr None"
  "clean_numeric (Text '' 12.50 '') = Inr (Some (25 / 2))"
  "clean_numeric (PyFloat (5 / 2) ''2.5'') = Inr (Some (5 / 2))"
  "clean_numeric (Other ''2024-01-01 00:00:00'') = Inr None"
  by code_simp+

lemma clean_value_eq: "clean_value c = clean_numeric c"
  by (simp add: clean_value_def clean_numeric_def)

text \<open>Every cell but an int beyond the range of binary64 gives a result.\<close>

lemma clean_numeric_returns:
  "(\<forall>n. c = PyInt n \<longrightarrow> \<bar>n\<bar> < 2 ^ 1024 - 2 ^ 970) \<Longrightarrow> \<exists>r. clean_numeric c = Inr r"
  unfolding clean_numeric_def isna_def
  by (cases c) (auto split: option.splits)


text \<open>
  Claim C8 holds on every cell of the lemma above and fails on the others: on the int
  \<open>10 ^ 400\<close>, \<^verbatim>\<open>float()\<close> raises OverflowError, which the handler for
  ValueError and TypeError lets through, in both modules.
\<close>

theorem clean_numeric_overflow:
  "clean_numeric (PyInt (10 ^ 400)) = Inl OverflowError
   \<and> clean_value (PyInt (10 ^ 400)) = Inl OverflowError"
  by (simp add: clean_numeric_def clean_value_def isna_def)


text \<open>
  Claim C9, as the code has it. For no items the summary is the empty dict: it has no key
  at all, so no total and no count; nothing is raised, and a parse of a frame without
  rows succeeds with no items, this summary and no errors.
\<close>

theorem generate_summary_empty:
  "generate_summary [] = []
   \<and> map_of (generate_summary []) k = None
   \<and> parse_file cfg [] ag = Success [] [] [] ag"
  by (simp add: generate_summary_def parse_file_def aggregate_by_sku_def)

text \<open>The theorem at one key and one configuration.\<close>

theorem generate_summary_empty_witness:
  "map_of (generate_summary []) ''total_value'' = None
   \<and> summary (parse_file \<lparr>validate = True, max_items = None\<rparr> [] False) = []"
  using generate_summary_empty [of "''total_value''" "\<lparr>validate = True, max_items = None\<rparr>" False]
  by simp

text \<open>
  Claim C9 as stated fails: the summary of no items has no \<^verbatim>\<open>total_items\<close> and
  no \<^verbatim>\<open>unique_skus\<close>, so neither is 0.
\<close>

theorem generate_summary_empty_counterexample:
  "map_of (generate_summary []) ''total_items'' = None
   \<and> map_of (generate_summary []) ''total_items'' \<noteq> Some 0
   \<and> map_of (generate_summary []) ''unique_skus'' \<noteq> Some 0"
  by (simp add: generate_summary_def)

end
